theory Spec2Isabelle
  imports Main "HOL-Library.Sublist" "HOL-Library.Log_Nat"
begin

section \<open>Python strings\<close>

text \<open>
  A Python \<open>str\<close> is a sequence of code points and \<open>len\<close> counts code points. A
  \<^typ>\<open>char\<close> stands for one code point below 256, so a \<^typ>\<open>string\<close> is a Python
  string over the Latin-1 range and \<^const>\<open>length\<close> is \<open>len\<close>. The built-in string
  methods the two scripts call are written out below with Python's behaviour on that
  range.
\<close>

text \<open>\<open>str.isspace\<close> of one code point: U+0009..U+000D, U+001C..U+0020, U+0085, U+00A0.\<close>

definition is_space :: "char \<Rightarrow> bool" where
  "is_space c = (let n = (of_char c :: nat) in
     (9 \<le> n \<and> n \<le> 13) \<or> (28 \<le> n \<and> n \<le> 32) \<or> n = 133 \<or> n = 160)"

text \<open>\<open>s.strip()\<close>: drop leading and trailing whitespace.\<close>

definition strip :: "string \<Rightarrow> string" where
  "strip s = rev (dropWhile is_space (rev (dropWhile is_space s)))"

text \<open>
  \<open>str.lower\<close> of one code point: A..Z and the Latin-1 capitals U+00C0..U+00DE
  (without the multiplication sign U+00D7) move up by 32, everything else stays.
\<close>

definition lower_char :: "char \<Rightarrow> char" where
  "lower_char c = (let n = (of_char c :: nat) in
     if (65 \<le> n \<and> n \<le> 90) \<or> (192 \<le> n \<and> n \<le> 222 \<and> n \<noteq> 215)
     then char_of (n + 32) else c)"

definition lower :: "string \<Rightarrow> string" where
  "lower s = map lower_char s"

text \<open>\<open>s.startswith(p)\<close>.\<close>

definition startswith :: "string \<Rightarrow> string \<Rightarrow> bool" where
  "startswith s p = (take (length p) s = p)"

text \<open>\<open>sub in s\<close>: \<open>sub\<close> occurs in \<open>s\<close> as a contiguous substring.\<close>

fun contains :: "string \<Rightarrow> string \<Rightarrow> bool" where
  "contains [] sub = (sub = [])"
| "contains (c # cs) sub = (startswith (c # cs) sub \<or> contains cs sub)"

text \<open>
  \<open>s.split(sep)\<close> for a non-empty separator (the scripts only pass the literals
  \<open>|||END_COMMIT\<close>, \<open>|||\<close>, newline and \<open>|\<close>): scan from the left, cut at every
  occurrence, continue behind it. \<open>acc\<close> is the field collected so far.
\<close>

fun split_from :: "string \<Rightarrow> string \<Rightarrow> string \<Rightarrow> string list" where
  "split_from sep acc [] = [acc]"
| "split_from sep acc (c # cs) =
     (if startswith (c # cs) sep
      then acc # split_from sep [] (drop (length sep - 1) cs)
      else split_from sep (acc @ [c]) cs)"

definition split :: "string \<Rightarrow> string \<Rightarrow> string list" where
  "split s sep = split_from sep [] s"

text \<open>\<open>sep.join(xs)\<close>.\<close>

fun join :: "string \<Rightarrow> string list \<Rightarrow> string" where
  "join sep [] = []"
| "join sep [x] = x"
| "join sep (x # y # ys) = x @ sep @ join sep (y # ys)"

text \<open>\<open>s.replace(old, new)\<close> for a non-empty \<open>old\<close>: left to right, not overlapping.\<close>

fun replace :: "string \<Rightarrow> string \<Rightarrow> string \<Rightarrow> string" where
  "replace old new [] = []"
| "replace old new (c # cs) =
     (if startswith (c # cs) old
      then new @ replace old new (drop (length old - 1) cs)
      else c # replace old new cs)"

section \<open>scripts/enhance-commit-messages.py\<close>

subsection \<open>Data\<close>

record Commit =
  hash :: string
  subject :: string
  body :: string
  files_changed :: "string list"
  stats :: string

text \<open>
  An exception that leaves a function. \<open>subprocess.run\<close> either raises while starting
  the process (\<open>OSError\<close>), or completes with a return code and the captured standard
  output; with \<open>check=True\<close> a non-zero return code raises \<open>CalledProcessError\<close>.
\<close>

datatype error =
    OSError
  | CalledProcessError int
  | ValueError
  | IndexError
  | AttributeError
  | TypeError
  | OverflowError
  | ZeroDivisionError

datatype run_result = Raised error | Completed int string

subsection \<open>\<open>CommitEnhancer._get_diff_stats\<close>\<close>

text \<open>
  \<open>git_show h\<close> is what \<open>subprocess.run(['git', 'show', '--stat', '--format=', h], ...)\<close>
  does. There is no \<open>check=True\<close> and no \<open>try\<close>: the return code is not looked at.
\<close>

definition get_diff_stats :: "(string \<Rightarrow> run_result) \<Rightarrow> string \<Rightarrow> error + string" where
  "get_diff_stats git_show commit_hash =
     (case git_show commit_hash of
        Raised e \<Rightarrow> Inl e
      | Completed returncode stdout \<Rightarrow> Inr (strip stdout))"

subsection \<open>\<open>CommitEnhancer.get_commits\<close>\<close>

definition known_prefix :: "string \<Rightarrow> bool" where
  "known_prefix line =
     (startswith line ''src/'' \<or> startswith line ''docs/'' \<or> startswith line ''tests/''
      \<or> startswith line ''Cargo.'' \<or> startswith line ''scripts/'')"

text \<open>
  The inner \<open>for line in lines\<close> loop, with its three variables \<open>in_files\<close>,
  \<open>body_lines\<close> and \<open>file_lines\<close> as the state.
\<close>

fun scan_lines ::
  "bool \<Rightarrow> string list \<Rightarrow> string list \<Rightarrow> string list \<Rightarrow> string list \<times> string list" where
  "scan_lines in_files body_lines file_lines [] = (body_lines, file_lines)"
| "scan_lines in_files body_lines file_lines (line # lines) =
     (if \<not> in_files \<and> known_prefix line
      then scan_lines True body_lines (file_lines @ [line]) lines
      else if in_files
      then scan_lines in_files body_lines (file_lines @ [line]) lines
      else scan_lines in_files (body_lines @ [line]) file_lines lines)"

text \<open>
  The part of the outer loop's body under the comment \<open># Split body from file list\<close>:
  from \<open>body_and_files\<close> to \<open>body\<close> and \<open>files\<close>.
\<close>

definition split_body_files :: "string \<Rightarrow> string \<times> string list" where
  "split_body_files body_and_files =
     (let lines = split body_and_files ''\<newline>'';
          (body_lines, file_lines) = scan_lines False [] [] lines;
          body = strip (join ''\<newline>'' body_lines);
          files = filter (\<lambda>f. strip f \<noteq> []) file_lines
      in (body, files))"

text \<open>
  The body of the outer \<open>for raw in raw_commits\<close> loop up to the call of
  \<open>_get_diff_stats\<close>: \<open>None\<close> is \<open>continue\<close>, otherwise the hash, the subject, the
  body and the files of the block.
\<close>

definition parse_raw :: "string \<Rightarrow> (string \<times> string \<times> string \<times> string list) option" where
  "parse_raw raw =
     (if strip raw = [] then None
      else let parts = split raw ''|||'' in
        if length parts < 3 then None
        else let commit_hash = strip (parts ! 0);
                 subject = strip (parts ! 1);
                 body_and_files = (if length parts > 2 then parts ! 2 else []);
                 (body, files) = split_body_files body_and_files
             in Some (commit_hash, subject, body, files))"

text \<open>The outer loop; \<open>commits\<close> is the list built so far.\<close>

fun commits_loop ::
  "(string \<Rightarrow> run_result) \<Rightarrow> Commit list \<Rightarrow> string list \<Rightarrow> error + Commit list" where
  "commits_loop git_show commits [] = Inr commits"
| "commits_loop git_show commits (raw # raw_commits) =
     (case parse_raw raw of
        None \<Rightarrow> commits_loop git_show commits raw_commits
      | Some (commit_hash, subj, bdy, files) \<Rightarrow>
          (case get_diff_stats git_show commit_hash of
             Inl e \<Rightarrow> Inl e
           | Inr st \<Rightarrow>
               commits_loop git_show
                 (commits @ [\<lparr>hash = commit_hash, subject = subj, body = bdy,
                              files_changed = files, stats = st\<rparr>])
                 raw_commits))"

text \<open>
  \<open>git_log\<close> is what \<open>subprocess.run(['git', 'log', ...], check=True)\<close> does for the
  range asked for.
\<close>

definition get_commits :: "(string \<Rightarrow> run_result) \<Rightarrow> run_result \<Rightarrow> error + Commit list" where
  "get_commits git_show git_log =
     (case git_log of
        Raised e \<Rightarrow> Inl e
      | Completed returncode stdout \<Rightarrow>
          if returncode \<noteq> 0 then Inl (CalledProcessError returncode)
          else commits_loop git_show [] (split stdout ''|||END_COMMIT''))"

subsection \<open>\<open>CommitEnhancer.needs_enhancement\<close>\<close>

definition terse_patterns :: "string list" where
  "terse_patterns =
     [''fix'', ''update'', ''add'', ''remove'', ''chore'',
      ''refactor'', ''notes'', ''wip'', ''tmp'']"

definition needs_enhancement :: "Commit \<Rightarrow> bool" where
  "needs_enhancement commit =
     (if length (body commit) > 200 then False
      else if startswith (subject commit) ''Release v'' \<or>
              startswith (subject commit) ''Bump version'' then False
      else let subject_lower = lower (subject commit) in
        if list_ex (\<lambda>pattern. subject_lower = pattern \<or>
                      startswith subject_lower (pattern @ '':'') \<or>
                      startswith subject_lower (pattern @ ''('')) terse_patterns
           \<and> length (subject commit) < 60
        then True
        else False)"

subsection \<open>\<open>CommitEnhancer._load_project_context\<close>\<close>



subsection \<open>\<open>CommitEnhancer.enhance_commit\<close>\<close>







section \<open>Python floats\<close>

text \<open>
  A Python \<open>float\<close> is an IEEE 754 binary64 number: 53 significant bits, exponents of
  the leading bit from \<open>-1022\<close> to \<open>1023\<close>, subnormal numbers below, results rounded to
  the nearest representable value, ties to the even significand. A finite float is
  represented by the rational number it denotes. The two zeros are one value here: they
  compare equal, and nothing in \<open>check_regression\<close> tells them apart except the text
  printed for them.
\<close>

datatype double = Finite rat | PosInf | NegInf | NaN

definition pow2 :: "int \<Rightarrow> rat" where
  "pow2 e = (if 0 \<le> e then 2 ^ nat e else 1 / 2 ^ nat (- e))"

text \<open>For \<open>0 < x\<close>, the exponent \<open>e\<close> of the leading bit: \<open>2 ^ e \<le> x < 2 ^ (e + 1)\<close>.\<close>

definition floor_log2 :: "rat \<Rightarrow> int" where
  "floor_log2 x =
     (let (p, q) = quotient_of x;
          e = bitlen p - bitlen q
      in if pow2 e \<le> x then e else e - 1)"

text \<open>The nearest integer, a tie going to the even one.\<close>

definition round_even :: "rat \<Rightarrow> int" where
  "round_even x =
     (let n = \<lfloor>x\<rfloor>;
          d = x - of_int n
      in if d < 1 / 2 then n
         else if 1 / 2 < d then n + 1
         else if even n then n else n + 1)"

text \<open>
  The float nearest to a rational number: the spacing of the floats around \<open>x\<close> is
  \<open>2 ^ (e - 52)\<close>, with \<open>e\<close> the exponent of the leading bit of \<open>x\<close> and at least
  \<open>-1022\<close>; what rounds to \<open>2 ^ 1024\<close> or more is an infinity.
\<close>

definition round_double :: "rat \<Rightarrow> double" where
  "round_double x =
     (if x = 0 then Finite 0
      else let a = \<bar>x\<bar>;
               e = max (floor_log2 a) (- 1022);
               ulp = pow2 (e - 52);
               r = of_int (round_even (a / ulp)) * ulp
           in if pow2 1024 \<le> r then (if 0 < x then PosInf else NegInf)
              else Finite (if 0 < x then r else - r))"

text \<open>\<open>x * y\<close>, \<open>x - y\<close> and \<open>x > y\<close> on floats; none of them raises.\<close>

fun fmul :: "double \<Rightarrow> double \<Rightarrow> double" where
  "fmul NaN y = NaN"
| "fmul x NaN = NaN"
| "fmul (Finite a) (Finite b) = round_double (a * b)"
| "fmul (Finite a) PosInf = (if a = 0 then NaN else if 0 < a then PosInf else NegInf)"
| "fmul (Finite a) NegInf = (if a = 0 then NaN else if 0 < a then NegInf else PosInf)"
| "fmul PosInf (Finite b) = (if b = 0 then NaN else if 0 < b then PosInf else NegInf)"
| "fmul NegInf (Finite b) = (if b = 0 then NaN else if 0 < b then NegInf else PosInf)"
| "fmul PosInf PosInf = PosInf"
| "fmul PosInf NegInf = NegInf"
| "fmul NegInf PosInf = NegInf"
| "fmul NegInf NegInf = PosInf"

fun fsub :: "double \<Rightarrow> double \<Rightarrow> double" where
  "fsub NaN y = NaN"
| "fsub x NaN = NaN"
| "fsub (Finite a) (Finite b) = round_double (a - b)"
| "fsub (Finite a) PosInf = NegInf"
| "fsub (Finite a) NegInf = PosInf"
| "fsub PosInf (Finite b) = PosInf"
| "fsub NegInf (Finite b) = NegInf"
| "fsub PosInf PosInf = NaN"
| "fsub PosInf NegInf = PosInf"
| "fsub NegInf PosInf = NegInf"
| "fsub NegInf NegInf = NaN"

fun fgt :: "double \<Rightarrow> double \<Rightarrow> bool" where
  "fgt NaN y = False"
| "fgt x NaN = False"
| "fgt (Finite a) (Finite b) = (b < a)"
| "fgt (Finite a) PosInf = False"
| "fgt (Finite a) NegInf = True"
| "fgt PosInf (Finite b) = True"
| "fgt NegInf (Finite b) = False"
| "fgt PosInf PosInf = False"
| "fgt PosInf NegInf = True"
| "fgt NegInf PosInf = False"
| "fgt NegInf NegInf = False"

text \<open>\<open>x / y\<close> on floats: a zero divisor raises, before anything else is looked at.\<close>

fun fdiv :: "double \<Rightarrow> double \<Rightarrow> error + double" where
  "fdiv x (Finite b) =
     (if b = 0 then Inl ZeroDivisionError
      else Inr (case x of
          Finite a \<Rightarrow> round_double (a / b)
        | PosInf \<Rightarrow> (if 0 < b then PosInf else NegInf)
        | NegInf \<Rightarrow> (if 0 < b then NegInf else PosInf)
        | NaN \<Rightarrow> NaN))"
| "fdiv NaN y = Inr NaN"
| "fdiv x NaN = Inr NaN"
| "fdiv (Finite a) y = Inr (Finite 0)"
| "fdiv x y = Inr NaN"

text \<open>
  The conversion of an \<open>int\<close> operand of a float operation: the nearest float, and
  \<open>OverflowError\<close> where that is no finite one.
\<close>

definition int_to_double :: "int \<Rightarrow> error + double" where
  "int_to_double n =
     (case round_double (of_int n) of
        Finite r \<Rightarrow> Inr (Finite r)
      | _ \<Rightarrow> Inl OverflowError)"

section \<open>scripts/check-perf-regression.py\<close>

subsection \<open>\<open>float(val)\<close> of a string\<close>

text \<open>
  \<open>float\<close> of a \<open>str\<close> first turns the non-ASCII whitespace U+0085 and U+00A0 into a
  blank, then drops the ASCII whitespace U+0009..U+000D and U+0020 at both ends; every
  other code point outside the grammar below, U+001C..U+001F included, is an error.
\<close>

definition float_space :: "char \<Rightarrow> bool" where
  "float_space c = (let n = (of_char c :: nat) in
     (9 \<le> n \<and> n \<le> 13) \<or> n = 32 \<or> n = 133 \<or> n = 160)"

definition is_digit :: "char \<Rightarrow> bool" where
  "is_digit c = (let n = (of_char c :: nat) in 48 \<le> n \<and> n \<le> 57)"

text \<open>
  An underscore is allowed only between two digits; \<open>prev\<close> is the code point before,
  U+0000 at the start.
\<close>

fun underscores_ok :: "char \<Rightarrow> string \<Rightarrow> bool" where
  "underscores_ok prev [] = (prev \<noteq> CHR ''_'')"
| "underscores_ok prev (c # cs) =
     (if c = CHR ''_'' then is_digit prev \<and> underscores_ok c cs
      else if prev = CHR ''_'' then is_digit c \<and> underscores_ok c cs
      else underscores_ok c cs)"

fun digits_value :: "int \<Rightarrow> string \<Rightarrow> int" where
  "digits_value acc [] = acc"
| "digits_value acc (c # cs) = digits_value (10 * acc + (int (of_char c) - 48)) cs"

definition pow10 :: "int \<Rightarrow> rat" where
  "pow10 e = (if 0 \<le> e then 10 ^ nat e else 1 / 10 ^ nat (- e))"

text \<open>
  The exponent part behind the mantissa: nothing, or \<open>e\<close> or \<open>E\<close>, an optional sign and
  at least one digit.
\<close>

definition exponent :: "string \<Rightarrow> int option" where
  "exponent s =
     (if s = [] then Some 0
      else if hd s \<noteq> CHR ''e'' \<and> hd s \<noteq> CHR ''E'' then None
      else let t = tl s;
               negative = (t \<noteq> [] \<and> hd t = CHR ''-'');
               u = (if t \<noteq> [] \<and> (hd t = CHR ''-'' \<or> hd t = CHR ''+'') then tl t else t)
           in if u = [] \<or> \<not> list_all is_digit u then None
              else Some (if negative then - digits_value 0 u else digits_value 0 u))"

text \<open>
  An unsigned decimal number: digits, an optional point and digits, at least one digit
  in all, and the exponent part; the value is exact.
\<close>

definition decimal :: "string \<Rightarrow> rat option" where
  "decimal s =
     (let int_digits = takeWhile is_digit s;
          r = dropWhile is_digit s;
          point = (r \<noteq> [] \<and> hd r = CHR ''.'');
          frac_digits = (if point then takeWhile is_digit (tl r) else []);
          r' = (if point then dropWhile is_digit (tl r) else r)
      in if int_digits = [] \<and> frac_digits = [] then None
         else case exponent r' of
                None \<Rightarrow> None
              | Some e \<Rightarrow>
                  Some (of_int (digits_value 0 (int_digits @ frac_digits))
                        * pow10 (e - int (length frac_digits))))"

text \<open>
  \<open>float(val)\<close>: an optional sign, then \<open>inf\<close>, \<open>infinity\<close> or \<open>nan\<close> in any case, or a
  decimal number, which is rounded to the nearest float (an infinity beyond the
  largest one); \<open>ValueError\<close> for every other string. The decimal value is the exact
  one for every string of fewer than \<open>10 ^ 9\<close> characters.
\<close>

definition py_float :: "string \<Rightarrow> error + double" where
  "py_float val =
     (let s = rev (dropWhile float_space (rev (dropWhile float_space val)))
      in if s = [] \<or> \<not> underscores_ok (CHR 0x00) s then Inl ValueError
         else let t = filter (\<lambda>c. c \<noteq> CHR ''_'') s;
                  negative = (hd t = CHR ''-'');
                  u = (if hd t = CHR ''-'' \<or> hd t = CHR ''+'' then tl t else t)
              in if lower u = ''inf'' \<or> lower u = ''infinity''
                 then Inr (if negative then NegInf else PosInf)
                 else if lower u = ''nan'' then Inr NaN
                 else case decimal u of
                        None \<Rightarrow> Inl ValueError
                      | Some x \<Rightarrow> Inr (round_double (if negative then - x else x)))"

subsection \<open>Data\<close>

text \<open>
  What \<open>json.load\<close> returns: \<open>None\<close>, a \<open>bool\<close>, an \<open>int\<close>, a \<open>float\<close> (the constants
  \<open>NaN\<close>, \<open>Infinity\<close> and \<open>-Infinity\<close> are accepted), a \<open>str\<close>, a \<open>list\<close> or a \<open>dict\<close>,
  given by its items, each key once.
\<close>

datatype json =
    JNull
  | JBool bool
  | JInt int
  | JFloat double
  | JString string
  | JArray "json list"
  | JObject "(string \<times> json) list"

text \<open>The lines the function prints, with the values they show.\<close>

datatype message =
    NoBaselineFound
  | ErrorLoadingBaseline error
  | ErrorParsingReport error
  | CouldNotFindSearch
  | InvalidBaseline
  | BaselineSearch json
  | CurrentSearch double
  | RegressionDetected
  | IncreasedBy double
  | CheckPassed

subsection \<open>Operations on the loaded values\<close>

text \<open>\<open>baseline.get(key)\<close>: only a \<open>dict\<close> has the method.\<close>

definition dict_get :: "json \<Rightarrow> string \<Rightarrow> error + json" where
  "dict_get v key =
     (case v of
        JObject items \<Rightarrow> Inr (case map_of items key of None \<Rightarrow> JNull | Some x \<Rightarrow> x)
      | _ \<Rightarrow> Inl AttributeError)"

text \<open>\<open>v == 0\<close>.\<close>

definition eq_zero :: "json \<Rightarrow> bool" where
  "eq_zero v =
     (case v of
        JBool b \<Rightarrow> \<not> b
      | JInt n \<Rightarrow> n = 0
      | JFloat x \<Rightarrow> x = Finite 0
      | _ \<Rightarrow> False)"

text \<open>
  The float that a loaded value is in an operation with a float: a \<open>bool\<close> counts as
  \<open>0\<close> or \<open>1\<close>, an \<open>int\<close> is converted, everything that is no number is a \<open>TypeError\<close>.
\<close>

definition operand :: "json \<Rightarrow> error + double" where
  "operand v =
     (case v of
        JBool b \<Rightarrow> Inr (Finite (if b then 1 else 0))
      | JInt n \<Rightarrow> int_to_double n
      | JFloat x \<Rightarrow> Inr x
      | _ \<Rightarrow> Inl TypeError)"

text \<open>\<open>v * x\<close> and \<open>x / v\<close> for a loaded value \<open>v\<close> and a float \<open>x\<close>.\<close>

definition py_mul :: "json \<Rightarrow> double \<Rightarrow> error + double" where
  "py_mul v x = (case operand v of Inl e \<Rightarrow> Inl e | Inr y \<Rightarrow> Inr (fmul y x))"

definition py_truediv :: "double \<Rightarrow> json \<Rightarrow> error + double" where
  "py_truediv x v = (case operand v of Inl e \<Rightarrow> Inl e | Inr y \<Rightarrow> fdiv x y)"

subsection \<open>\<open>check_regression\<close>\<close>

text \<open>
  The loop \<open>for line in f\<close> over the lines of the report, up to its \<open>break\<close>: the value
  of \<open>current_search_ms\<close> behind the loop, or the exception that leaves it.
\<close>

fun find_search :: "string list \<Rightarrow> error + double option" where
  "find_search [] = Inr None"
| "find_search (line # lines) =
     (if contains line ''| search |''
      then let parts = split line ''|'' in
        if length parts \<le> 2 then Inl IndexError
        else let val = replace ''ms'' [] (strip (parts ! 2)) in
          (case py_float val of
             Inl e \<Rightarrow> Inl e
           | Inr current_search_ms \<Rightarrow> Inr (Some current_search_ms))
      else find_search lines)"

text \<open>
  \<open>baseline_exists\<close> is \<open>os.path.exists(latest_path)\<close>; \<open>baseline_file\<close> is what opening
  and loading the baseline gives, an exception or the loaded value; \<open>report_file\<close> is
  what opening and reading the report gives, an exception or the lines the loop gets.
  The result is the exception that leaves the function, or the printed lines and the
  returned exit code.
\<close>

definition check_regression ::
  "bool \<Rightarrow> error + json \<Rightarrow> error + string list \<Rightarrow> error + message list \<times> int" where
  "check_regression baseline_exists baseline_file report_file =
     (if \<not> baseline_exists then Inr ([NoBaselineFound], 0)
      else case baseline_file of
        Inl e \<Rightarrow> Inr ([ErrorLoadingBaseline e], 0)
      | Inr baseline \<Rightarrow>
          (case (case report_file of Inl e \<Rightarrow> Inl e | Inr lines \<Rightarrow> find_search lines) of
             Inl e \<Rightarrow> Inr ([ErrorParsingReport e], 1)
           | Inr None \<Rightarrow> Inr ([CouldNotFindSearch], 1)
           | Inr (Some current_search_ms) \<Rightarrow>
               (case dict_get baseline ''search_ms'' of
                  Inl e \<Rightarrow> Inl e
                | Inr baseline_search_ms \<Rightarrow>
                    if baseline_search_ms = JNull \<or> eq_zero baseline_search_ms
                    then Inr ([InvalidBaseline], 0)
                    else let threshold = round_double (115 / 100);
                             printed = [BaselineSearch baseline_search_ms,
                                        CurrentSearch current_search_ms]
                         in case py_mul baseline_search_ms threshold of
                              Inl e \<Rightarrow> Inl e
                            | Inr limit \<Rightarrow>
                                if fgt current_search_ms limit
                                then (case py_truediv current_search_ms baseline_search_ms of
                                        Inl e \<Rightarrow> Inl e
                                      | Inr ratio \<Rightarrow>
                                          let diff = fmul (fsub ratio (Finite 1)) (Finite 100)
                                          in Inr (printed @ [RegressionDetected, IncreasedBy diff], 1))
                                else Inr (printed @ [CheckPassed], 0))))"

section \<open>Facts about the string functions\<close>

lemma startswith_prefix: "startswith s p \<longleftrightarrow> prefix p s"
proof
  assume "startswith s p"
  then have "s = p @ drop (length p) s"
    unfolding startswith_def by (metis append_take_drop_id)
  then show "prefix p s" by (metis prefixI)
next
  assume "prefix p s"
  then show "startswith s p"
    unfolding startswith_def by (auto simp: prefix_def)
qed

lemma contains_sublist: "contains s sub \<longleftrightarrow> sublist sub s"
  by (induction s) (auto simp: startswith_prefix sublist_Cons_right)

lemma scan_lines_in_files: "scan_lines True bl fl ls = (bl, fl @ ls)"
  by (induction ls arbitrary: fl) auto

lemma scan_lines_body:
  "scan_lines False bl fl ls =
     (bl @ takeWhile (\<lambda>l. \<not> known_prefix l) ls, fl @ dropWhile (\<lambda>l. \<not> known_prefix l) ls)"
  by (induction ls arbitrary: bl) (auto simp: scan_lines_in_files)

lemma split_from_nonempty: "split_from sep acc s \<noteq> []"
  by (induction sep acc s rule: split_from.induct) auto

lemma join_Cons: "xs \<noteq> [] \<Longrightarrow> join sep (x # xs) = x @ sep @ join sep xs"
  by (cases xs) auto

lemma startswith_decomp:
  "sep \<noteq> [] \<Longrightarrow> startswith (c # cs) sep \<Longrightarrow> c # cs = sep @ drop (length sep - 1) cs"
proof -
  assume ne: "sep \<noteq> []" and sw: "startswith (c # cs) sep"
  from sw have "c # cs = sep @ drop (length sep) (c # cs)"
    unfolding startswith_def by (metis append_take_drop_id)
  moreover from ne have "drop (length sep) (c # cs) = drop (length sep - 1) cs"
    by (cases sep) auto
  ultimately show ?thesis by simp
qed

lemma join_split_from: "sep \<noteq> [] \<Longrightarrow> join sep (split_from sep acc s) = acc @ s"
proof (induction sep acc s rule: split_from.induct)
  case (1 sep acc)
  then show ?case by simp
next
  case (2 sep acc c cs)
  show ?case
  proof (cases "startswith (c # cs) sep")
    case True
    with 2 have "join sep (split_from sep [] (drop (length sep - 1) cs)) = drop (length sep - 1) cs"
      by simp
    then have "join sep (split_from sep acc (c # cs)) = acc @ sep @ drop (length sep - 1) cs"
      using True by (simp add: join_Cons split_from_nonempty)
    also have "\<dots> = acc @ c # cs"
      using startswith_decomp[OF 2(3) True] by simp
    finally show ?thesis .
  next
    case False
    with 2 show ?thesis by simp
  qed
qed

lemma split_from_no_occ:
  "\<not> sublist sep s \<Longrightarrow> split_from sep acc s = [acc @ s]"
proof (induction s arbitrary: acc)
  case Nil
  then show ?case by simp
next
  case (Cons x s)
  then have "\<not> startswith (x # s) sep" "\<not> sublist sep s"
    by (auto simp: startswith_prefix sublist_Cons_right)
  with Cons.IH[of "acc @ [x]"] show ?case by simp
qed

lemma prefix_within:
  assumes "sep \<noteq> []" "prefix sep (x # a @ sep @ b)"
  shows "prefix sep (x # a @ butlast sep)"
proof -
  have "sep = take (length sep) (x # a @ sep @ b)"
    using assms(2) by (metis append_eq_conv_conj prefix_def)
  also have "x # a @ sep @ b = (x # a @ butlast sep) @ (last sep # b)"
    using assms(1) by simp
  also have "take (length sep) \<dots> = take (length sep) (x # a @ butlast sep)"
    using assms(1) by (simp del: append_assoc append.simps) 
  finally show ?thesis
    by (metis take_is_prefix)
qed

lemma split_from_first:
  "sep \<noteq> [] \<Longrightarrow> \<not> sublist sep (a @ butlast sep) \<Longrightarrow>
   split_from sep acc (a @ sep @ b) = (acc @ a) # split_from sep [] b"
proof (induction a arbitrary: acc)
  case Nil
  then obtain c cs where "sep = c # cs" by (cases sep) auto
  then show ?case by (simp add: startswith_def)
next
  case (Cons x a)
  have "\<not> prefix sep (x # a @ sep @ b)"
    using prefix_within[OF Cons.prems(1)] Cons.prems(2) by (auto simp: sublist_Cons_right)
  moreover have "\<not> sublist sep (a @ butlast sep)"
    using Cons.prems(2) by (auto simp: sublist_Cons_right)
  ultimately show ?case
    using Cons.IH[of "acc @ [x]"] Cons.prems(1) by (simp add: startswith_prefix)
qed

lemma strip_eq_Nil: "strip s = [] \<longleftrightarrow> (\<forall>c \<in> set s. is_space c)"
proof
  assume "strip s = []"
  then have "\<forall>c \<in> set (dropWhile is_space s). is_space c"
    by (simp add: strip_def dropWhile_eq_Nil_conv)
  then have "dropWhile is_space s = []"
    using hd_dropWhile[of is_space s] by (cases "dropWhile is_space s") auto
  then show "\<forall>c \<in> set s. is_space c"
    by (simp add: dropWhile_eq_Nil_conv)
next
  assume "\<forall>c \<in> set s. is_space c"
  then show "strip s = []"
    by (auto simp: strip_def dropWhile_eq_Nil_conv dest: set_dropWhileD)
qed

lemma bar_not_space: "\<not> is_space CHR ''|''"
  by (simp add: is_space_def)

lemma delim_ext:
  assumes "\<not> sublist ''|||'' h" and "h = [] \<or> last h \<noteq> CHR ''|''"
  shows "\<not> sublist ''|||'' (h @ ''||'')"
proof
  assume "sublist ''|||'' (h @ ''||'')"
  then consider "sublist ''|||'' h" | "sublist ''|||'' ''||''"
    | xs1 xs2 where "''|||'' = xs1 @ xs2" "suffix xs1 h" "prefix xs2 ''||''"
    unfolding sublist_append by blast
  then show False
  proof cases
    case 1
    with assms(1) show False by simp
  next
    case 2
    then show False using sublist_length_le by fastforce
  next
    case 3
    have "xs1 \<noteq> []"
    proof
      assume "xs1 = []"
      with 3(1,3) have "prefix ''|||'' ''||''" by simp
      then show False using prefix_length_le by fastforce
    qed
    then have "last xs1 \<in> set xs1" by simp
    moreover have "set xs1 \<subseteq> {CHR ''|''}"
    proof -
      have "set xs1 \<subseteq> set (xs1 @ xs2)" by simp
      with 3(1) show ?thesis by (metis list.set(1,2) insert_absorb2 subset_refl subset_trans)
    qed
    ultimately have "last xs1 = CHR ''|''" by auto
    moreover from 3(2) \<open>xs1 \<noteq> []\<close> have "h \<noteq> [] \<and> last h = last xs1"
      by (auto simp: suffix_def)
    ultimately show False using assms(2) by simp
  qed
qed

lemma sentinel_no_overlap:
  "list_all (\<lambda>k. \<not> prefix (drop k ''|||END_COMMIT'') ''|||END_COMMI'') [1..<13]"
  by code_simp

lemma sentinel_ext:
  assumes "\<not> sublist ''|||END_COMMIT'' blk"
  shows "\<not> sublist ''|||END_COMMIT'' (blk @ ''|||END_COMMI'')"
proof
  assume "sublist ''|||END_COMMIT'' (blk @ ''|||END_COMMI'')"
  then consider "sublist ''|||END_COMMIT'' blk" | "sublist ''|||END_COMMIT'' ''|||END_COMMI''"
    | xs1 xs2 where "''|||END_COMMIT'' = xs1 @ xs2" "suffix xs1 blk" "prefix xs2 ''|||END_COMMI''"
    unfolding sublist_append by blast
  then show False
  proof cases
    case 1
    with assms show False by simp
  next
    case 2
    then show False using sublist_length_le by fastforce
  next
    case 3
    define k where "k = length xs1"
    have "length (xs1 @ xs2) = 13"
      using 3(1)[symmetric] by simp
    then have k: "k \<le> 13"
      unfolding k_def by simp
    from 3(1) have xs2: "xs2 = drop k ''|||END_COMMIT''" and xs1: "xs1 = take k ''|||END_COMMIT''"
      unfolding k_def by (metis append_eq_conv_conj)+
    show False
    proof (cases "k = 0 \<or> k = 13")
      case True
      then show False
      proof
        assume "k = 0"
        with xs2 3(3) have "prefix ''|||END_COMMIT'' ''|||END_COMMI''" by simp
        then show False using prefix_length_le by fastforce
      next
        assume "k = 13"
        with xs1 have "xs1 = ''|||END_COMMIT''" by simp
        with 3(2) assms show False by auto
      qed
    next
      case False
      with k have "k \<in> set [1..<13]" by auto
      with sentinel_no_overlap have "\<not> prefix (drop k ''|||END_COMMIT'') ''|||END_COMMI''"
        unfolding list_all_iff by blast
      with xs2 3(3) show False by simp
    qed
  qed
qed

section \<open>Facts about the history parser\<close>

lemma split_three:
  assumes "\<not> sublist ''|||'' (h @ ''||'')" "\<not> sublist ''|||'' (s @ ''||'')"
  shows "split (h @ ''|||'' @ s @ ''|||'' @ rest) ''|||'' = h # s # split rest ''|||''"
  unfolding split_def
  using split_from_first[of "''|||''" h "[]" "s @ ''|||'' @ rest"]
        split_from_first[of "''|||''" s "[]" rest] assms
  by simp

lemma strip_block_nonempty: "strip (h @ ''|||'' @ rest) \<noteq> []"
  by (auto simp: strip_eq_Nil bar_not_space)

lemma parse_raw_parts:
  assumes "split raw ''|||'' = p0 # p1 # p2 # ps" "strip raw \<noteq> []"
  shows "parse_raw raw = Some (strip p0, strip p1, fst (split_body_files p2), snd (split_body_files p2))"
  using assms by (simp add: parse_raw_def Let_def split_beta)

lemma split_nonempty: "split s sep \<noteq> []"
  by (simp add: split_def split_from_nonempty)

lemma parse_raw_block:
  assumes "\<not> sublist ''|||'' (h @ ''||'')" "\<not> sublist ''|||'' (s @ ''||'')"
  shows "parse_raw (h @ ''|||'' @ s @ ''|||'' @ rest) =
           Some (strip h, strip s, fst (split_body_files (hd (split rest ''|||''))),
                 snd (split_body_files (hd (split rest ''|||''))))"
proof -
  obtain p ps where "split rest ''|||'' = p # ps"
    using split_nonempty by (cases "split rest ''|||''") auto
  then show ?thesis
    using parse_raw_parts[OF _ strip_block_nonempty, of h "s @ ''|||'' @ rest" h s p ps]
          split_three[OF assms, of rest]
    by simp
qed

lemma hd_split_cut:
  assumes "\<not> sublist ''|||'' (x @ ''||'')"
  shows "hd (split (x @ ''|||'' @ y) ''|||'') = x"
  unfolding split_def using split_from_first[of "''|||''" x "[]" y] assms by simp

lemma hd_split_whole:
  assumes "\<not> sublist ''|||'' x"
  shows "hd (split x ''|||'') = x"
  unfolding split_def using split_from_no_occ[of "''|||''" x "[]"] assms by simp

lemma split_sentinel:
  assumes "\<not> sublist ''|||END_COMMIT'' blk"
  shows "split (blk @ ''|||END_COMMIT'') ''|||END_COMMIT'' = [blk, []]"
  unfolding split_def
  using split_from_first[of "''|||END_COMMIT''" blk "[]" "[]"] sentinel_ext[OF assms]
  by simp

lemma parse_raw_Nil: "parse_raw [] = None"
  by (simp add: parse_raw_def strip_def)

lemma get_commits_one:
  assumes "\<not> sublist ''|||END_COMMIT'' blk"
    and "parse_raw blk = Some (h, s, b, fs)"
  shows "get_commits git_show (Completed 0 (blk @ ''|||END_COMMIT'')) =
          (case get_diff_stats git_show h of
             Inl e \<Rightarrow> Inl e
           | Inr st \<Rightarrow> Inr [\<lparr>hash = h, subject = s, body = b, files_changed = fs, stats = st\<rparr>])"
  using assms(2)
  by (simp add: get_commits_def split_sentinel[OF assms(1)] parse_raw_Nil split: sum.splits)

lemma sublist_across_char:
  assumes "c \<notin> set p" "sublist p (a @ c # r)"
  shows "sublist p a \<or> sublist p r"
proof -
  from assms(2) consider "sublist p a" | "sublist p (c # r)"
    | xs1 xs2 where "p = xs1 @ xs2" "suffix xs1 a" "prefix xs2 (c # r)"
    unfolding sublist_append by blast
  then show ?thesis
  proof cases
    case 1
    then show ?thesis by simp
  next
    case 2
    then have "prefix p (c # r) \<or> sublist p r" by (simp add: sublist_Cons_right)
    moreover have "prefix p (c # r) \<Longrightarrow> p = []"
      using assms(1) by (cases p) auto
    ultimately show ?thesis by auto
  next
    case 3
    have "xs2 = []"
      using 3(1,3) assms(1) by (cases xs2) auto
    with 3 show ?thesis by auto
  qed
qed

lemma no_delim_join:
  assumes "\<not> sublist ''|||'' b" "\<forall>f \<in> set fs. \<not> sublist ''|||'' f"
  shows "\<not> sublist ''|||'' (join ''\<newline>'' (b # fs))"
  using assms
proof (induction fs arbitrary: b)
  case Nil
  then show ?case by simp
next
  case (Cons f fs)
  have "\<not> sublist ''|||'' (join ''\<newline>'' (f # fs))"
    using Cons.IH[of f] Cons.prems(2) by simp
  with Cons.prems(1) show ?case
    using sublist_across_char[of "CHR ''\<newline>''" "''|||''" b "join ''\<newline>'' (f # fs)"]
    by auto
qed

lemma split_from_char:
  "split_from [c] acc (a @ c # r) = split_from [c] acc a @ split_from [c] [] r"
  by (induction a arbitrary: acc) (auto simp: startswith_def)

lemma split_join_lines:
  assumes "\<forall>f \<in> set fs. CHR ''\<newline>'' \<notin> set f"
  shows "split (join ''\<newline>'' (b # fs)) ''\<newline>'' = split b ''\<newline>'' @ fs"
  using assms
proof (induction fs arbitrary: b)
  case Nil
  then show ?case by simp
next
  case (Cons f fs)
  have "\<not> sublist ''\<newline>'' f"
    using Cons.prems set_mono_sublist by fastforce
  then have "split f ''\<newline>'' = [f]"
    by (simp add: split_def split_from_no_occ)
  moreover have "split (join ''\<newline>'' (f # fs)) ''\<newline>'' = split f ''\<newline>'' @ fs"
    using Cons.IH[of f] Cons.prems by simp
  ultimately show ?case
    using split_from_char[of "CHR ''\<newline>''" "[]" b "join ''\<newline>'' (f # fs)"]
    by (simp add: split_def)
qed

lemma known_prefix_not_blank: "known_prefix f \<Longrightarrow> strip f \<noteq> []"
proof -
  assume "known_prefix f"
  then have "f \<noteq> [] \<and> hd f \<in> {CHR ''s'', CHR ''d'', CHR ''t'', CHR ''C''}"
    by (cases f) (auto simp: known_prefix_def startswith_def)
  moreover have "\<forall>c \<in> {CHR ''s'', CHR ''d'', CHR ''t'', CHR ''C''}. \<not> is_space c"
    by (simp add: is_space_def)
  ultimately have "\<exists>c \<in> set f. \<not> is_space c"
    by (metis hd_in_set)
  then show ?thesis by (simp add: strip_eq_Nil)
qed

lemma scan_lines_two_parts:
  assumes "\<forall>l \<in> set bl. \<not> known_prefix l" "\<forall>f \<in> set fs. known_prefix f"
  shows "scan_lines False [] [] (bl @ fs) = (bl, fs)"
proof -
  have "takeWhile (\<lambda>l. \<not> known_prefix l) fs = []" "dropWhile (\<lambda>l. \<not> known_prefix l) fs = fs"
    using assms(2) by (cases fs; simp)+
  then show ?thesis
    using assms(1) by (simp add: scan_lines_body)
qed

lemma split_body_files_join:
  assumes "\<forall>l \<in> set (split b ''\<newline>''). \<not> known_prefix l"
    and "\<forall>f \<in> set fs. known_prefix f \<and> CHR ''\<newline>'' \<notin> set f"
  shows "split_body_files (join ''\<newline>'' (b # fs)) = (strip b, fs)"
proof -
  have "split (join ''\<newline>'' (b # fs)) ''\<newline>'' = split b ''\<newline>'' @ fs"
    using assms(2) by (simp add: split_join_lines)
  moreover have "scan_lines False [] [] (split b ''\<newline>'' @ fs) = (split b ''\<newline>'', fs)"
    using assms by (simp add: scan_lines_two_parts)
  moreover have "join ''\<newline>'' (split b ''\<newline>'') = b"
    by (simp add: split_def join_split_from)
  moreover have "filter (\<lambda>f. strip f \<noteq> []) fs = fs"
    using assms(2) by (simp add: known_prefix_not_blank)
  ultimately show ?thesis
    by (simp add: split_body_files_def)
qed

lemma parse_raw_cut:
  assumes "\<not> sublist ''|||'' (h @ ''||'')" "\<not> sublist ''|||'' (s @ ''||'')"
    and "\<not> sublist ''|||'' (x @ ''||'')"
  shows "parse_raw (h @ ''|||'' @ s @ ''|||'' @ x @ ''|||'' @ y) =
           Some (strip h, strip s, fst (split_body_files x), snd (split_body_files x))"
  using parse_raw_block[OF assms(1,2), of "x @ ''|||'' @ y"] hd_split_cut[OF assms(3), of y]
  by simp

lemma parse_raw_uncut:
  assumes "\<not> sublist ''|||'' (h @ ''||'')" "\<not> sublist ''|||'' (s @ ''||'')"
    and "\<not> sublist ''|||'' (x @ ''||'')"
  shows "parse_raw (h @ ''|||'' @ s @ ''|||'' @ x) =
           Some (strip h, strip s, fst (split_body_files x), snd (split_body_files x))"
proof -
  have "\<not> sublist ''|||'' x"
    using assms(3) by (auto simp: sublist_append)
  then show ?thesis
    using parse_raw_block[OF assms(1,2), of x] hd_split_whole[of x] by simp
qed

section \<open>Facts about the template\<close>







section \<open>Facts about the floats\<close>



















section \<open>Facts about the regression check\<close>

lemma length_split_char:
  "length (split_from [c] acc s) = Suc (length (filter (\<lambda>x. x = c) s))"
  by (induction s arbitrary: acc) (auto simp: startswith_def)

lemma search_line_parts:
  assumes "contains line ''| search |''"
  shows "2 < length (split line ''|'')"
proof -
  from assms obtain a b where "line = a @ ''| search |'' @ b"
    unfolding contains_sublist sublist_def by blast
  then show ?thesis
    unfolding split_def length_split_char by simp
qed

lemma find_search_hit:
  assumes "contains line ''| search |''"
  shows "find_search (line # lines) =
           (case py_float (replace ''ms'' [] (strip (split line ''|'' ! 2))) of
              Inl e \<Rightarrow> Inl e
            | Inr x \<Rightarrow> Inr (Some x))"
  using assms search_line_parts[OF assms] by (simp add: Let_def)

lemma find_search_skip:
  assumes "list_all (\<lambda>l. \<not> contains l ''| search |'') pre"
  shows "find_search (pre @ rest) = find_search rest"
  using assms by (induction pre) simp_all

lemma find_search_none:
  assumes "list_all (\<lambda>l. \<not> contains l ''| search |'') lines"
  shows "find_search lines = Inr None"
  using find_search_skip[OF assms, of "[]"] by simp










section \<open>The terseness classifier\<close>

text \<open>
  C1. \<open>needs_enhancement\<close> answers yes exactly when the body has at most 200 characters,
  the subject starts with neither \<open>Release v\<close> nor \<open>Bump version\<close>, the lowercased
  subject is a terse verb or starts with a terse verb followed by a colon or an open
  parenthesis, and the subject itself has fewer than 60 characters. A body of more than
  200 characters gives no whatever the subject is, and so does a release prefix whatever
  the lengths are.
\<close>

theorem needs_enhancement_iff:
  "(needs_enhancement c \<longleftrightarrow>
      length (body c) \<le> 200
      \<and> \<not> startswith (subject c) ''Release v''
      \<and> \<not> startswith (subject c) ''Bump version''
      \<and> (\<exists>v \<in> set terse_patterns.
            lower (subject c) = v
            \<or> startswith (lower (subject c)) (v @ '':'')
            \<or> startswith (lower (subject c)) (v @ ''(''))
      \<and> length (subject c) < 60)
   \<and> (length (body c) > 200 \<longrightarrow> \<not> needs_enhancement c)
   \<and> (startswith (subject c) ''Release v'' \<or> startswith (subject c) ''Bump version''
        \<longrightarrow> \<not> needs_enhancement c)"
  by (auto simp: needs_enhancement_def Let_def list_ex_iff)

theorem needs_enhancement_iff_witness:
  "needs_enhancement \<lparr>hash = ''a1b2'', subject = ''Fix: typo'', body = '''',
                      files_changed = [], stats = ''''\<rparr>
   \<and> (length (body \<lparr>hash = ''a1b2'', subject = ''wip'', body = replicate 201 CHR ''x'',
                      files_changed = [], stats = ''''\<rparr>) > 200
      \<and> \<not> needs_enhancement \<lparr>hash = ''a1b2'', subject = ''wip'', body = replicate 201 CHR ''x'',
                      files_changed = [], stats = ''''\<rparr>)
   \<and> (startswith (subject \<lparr>hash = ''a1b2'', subject = ''Release v1.2'', body = '''',
                      files_changed = [], stats = ''''\<rparr>) ''Release v''
      \<and> \<not> needs_enhancement \<lparr>hash = ''a1b2'', subject = ''Release v1.2'', body = '''',
                      files_changed = [], stats = ''''\<rparr>)"
proof -
  let ?c1 = "\<lparr>hash = ''a1b2'', subject = ''Fix: typo'', body = '''',
              files_changed = [], stats = ''''\<rparr>"
  let ?c2 = "\<lparr>hash = ''a1b2'', subject = ''wip'', body = replicate 201 CHR ''x'',
              files_changed = [], stats = ''''\<rparr>"
  let ?c3 = "\<lparr>hash = ''a1b2'', subject = ''Release v1.2'', body = '''',
              files_changed = [], stats = ''''\<rparr>"
  have low: "lower ''Fix: typo'' = ''fix: typo''"
    by code_simp
  have "''fix'' \<in> set terse_patterns"
    by (simp add: terse_patterns_def)
  moreover have "startswith (lower (subject ?c1)) (''fix'' @ '':'')"
    by (simp add: low startswith_def)
  ultimately have "\<exists>v \<in> set terse_patterns.
            lower (subject ?c1) = v
            \<or> startswith (lower (subject ?c1)) (v @ '':'')
            \<or> startswith (lower (subject ?c1)) (v @ ''('')"
    by blast
  moreover have "\<not> startswith (subject ?c1) ''Release v''"
       "\<not> startswith (subject ?c1) ''Bump version''"
    by (simp_all add: startswith_def)
  ultimately have a: "needs_enhancement ?c1"
    using needs_enhancement_iff[of ?c1] by simp
  have l: "length (body ?c2) > 200" by simp
  with needs_enhancement_iff[of ?c2] have b: "\<not> needs_enhancement ?c2" by blast
  have r: "startswith (subject ?c3) ''Release v''" by (simp add: startswith_def)
  with needs_enhancement_iff[of ?c3] have c: "\<not> needs_enhancement ?c3" by blast
  from a b c l r show ?thesis by blast
qed

section \<open>The line scan\<close>

text \<open>
  C3. The scan starts in body mode and moves to files mode at the first line that starts
  with a known prefix; that line and all lines after it are file lines, all lines before
  it are body lines, and in files mode every remaining line is a file line.
\<close>

theorem scan_lines_irrevocable:
  "scan_lines False [] [] ls =
     (takeWhile (\<lambda>l. \<not> known_prefix l) ls, dropWhile (\<lambda>l. \<not> known_prefix l) ls)
   \<and> scan_lines True bl fl ls = (bl, fl @ ls)
   \<and> ((\<forall>x \<in> set pre. \<not> known_prefix x) \<and> known_prefix l
        \<longrightarrow> scan_lines False [] [] (pre @ l # post) = (pre, l # post))"
proof -
  have "scan_lines False [] [] (pre @ l # post) = (pre, l # post)"
    if "\<forall>x \<in> set pre. \<not> known_prefix x" "known_prefix l"
    using that by (simp add: scan_lines_body takeWhile_append2 dropWhile_append2)
  then show ?thesis
    by (simp add: scan_lines_body scan_lines_in_files)
qed

theorem scan_lines_irrevocable_witness:
  "\<not> known_prefix ''Fix the parser'' \<and> \<not> known_prefix [] \<and> known_prefix ''src/a.rs''
   \<and> scan_lines False [] [] ([''Fix the parser'', []] @ ''src/a.rs'' # [''not a path'', ''docs/b.md''])
       = ([''Fix the parser'', []], ''src/a.rs'' # [''not a path'', ''docs/b.md''])"
proof -
  have h: "\<not> known_prefix ''Fix the parser''" "\<not> known_prefix []" "known_prefix ''src/a.rs''"
    by (simp_all add: known_prefix_def startswith_def)
  then have "(\<forall>x \<in> set [''Fix the parser'', []]. \<not> known_prefix x) \<and> known_prefix ''src/a.rs''"
    by simp
  with scan_lines_irrevocable[of "[''Fix the parser'', [], ''src/a.rs'', ''not a path'', ''docs/b.md'']"
      "[]" "[]" "[''Fix the parser'', []]" "''src/a.rs''" "[''not a path'', ''docs/b.md'']"] h
  show ?thesis by blast
qed

section \<open>The history parser\<close>

text \<open>
  C2 (amended). A block \<open>hash|||subject|||body-and-files\<close> followed by the sentinel, whose
  body-and-files text is the body and the file lines joined by newlines, is parsed back
  to the subject, the trimmed body and the files in order, when: the body has no line
  with a known prefix and no \<open>|||\<close>; every file line starts with a known prefix and has no
  \<open>|||\<close> and no newline; the hash and the subject have no \<open>|||\<close> and do not end in \<open>|\<close>;
  the subject has no leading or trailing whitespace; and the block itself does not
  contain the sentinel. The stats are the trimmed output of the completed \<open>git show\<close>.
\<close>

theorem get_commits_round_trip:
  assumes hash_ok: "\<not> contains h ''|||''" "h = [] \<or> last h \<noteq> CHR ''|''"
    and subject_ok: "\<not> contains s ''|||''" "s = [] \<or> last s \<noteq> CHR ''|''" "strip s = s"
    and body_ok: "\<not> contains b ''|||''" "\<forall>l \<in> set (split b ''\<newline>''). \<not> known_prefix l"
    and files_ok: "\<forall>f \<in> set fs. known_prefix f \<and> \<not> contains f ''|||'' \<and> CHR ''\<newline>'' \<notin> set f"
    and block_ok: "\<not> contains (h @ ''|||'' @ s @ ''|||'' @ join ''\<newline>'' (b # fs)) ''|||END_COMMIT''"
    and show_ok: "git_show (strip h) = Completed rc out"
  shows "get_commits git_show
           (Completed 0 (h @ ''|||'' @ s @ ''|||'' @ join ''\<newline>'' (b # fs) @ ''|||END_COMMIT''))
         = Inr [\<lparr>hash = strip h, subject = s, body = strip b, files_changed = fs,
                 stats = strip out\<rparr>]"
proof -
  let ?bf = "join ''\<newline>'' (b # fs)"
  let ?blk = "h @ ''|||'' @ s @ ''|||'' @ ?bf"
  have h: "\<not> sublist ''|||'' (h @ ''||'')" and s: "\<not> sublist ''|||'' (s @ ''||'')"
    using hash_ok subject_ok by (simp_all add: contains_sublist delim_ext)
  have "\<not> sublist ''|||'' ?bf"
    using body_ok(1) files_ok by (intro no_delim_join) (simp_all add: contains_sublist)
  then have "hd (split ?bf ''|||'') = ?bf"
    by (rule hd_split_whole)
  moreover have "split_body_files ?bf = (strip b, fs)"
    using body_ok(2) files_ok by (intro split_body_files_join) simp_all
  ultimately have "parse_raw ?blk = Some (strip h, s, strip b, fs)"
    using parse_raw_block[OF h s, of ?bf] subject_ok(3) by simp
  moreover have "\<not> sublist ''|||END_COMMIT'' ?blk"
    using block_ok by (simp add: contains_sublist)
  ultimately have "get_commits git_show (Completed 0 (?blk @ ''|||END_COMMIT'')) =
      (case get_diff_stats git_show (strip h) of
         Inl e \<Rightarrow> Inl e
       | Inr st \<Rightarrow> Inr [\<lparr>hash = strip h, subject = s, body = strip b, files_changed = fs, stats = st\<rparr>])"
    by (intro get_commits_one)
  then show ?thesis
    using show_ok by (simp add: get_diff_stats_def)
qed

theorem get_commits_round_trip_witness:
  "get_commits (\<lambda>h. Completed 0 '' 2 files changed\<newline>'')
     (Completed 0 ''abc123|||fix: typo|||Body line\<newline>second line\<newline>src/a.rs\<newline>docs/b.md|||END_COMMIT'')
   = Inr [\<lparr>hash = ''abc123'', subject = ''fix: typo'', body = ''Body line\<newline>second line'',
            files_changed = [''src/a.rs'', ''docs/b.md''], stats = ''2 files changed''\<rparr>]"
proof -
  let ?h = "''abc123''" and ?s = "''fix: typo''" and ?b = "''Body line\<newline>second line''"
  let ?fs = "[''src/a.rs'', ''docs/b.md'']"
  let ?show = "\<lambda>h::string. Completed 0 '' 2 files changed\<newline>''"
  have 1: "\<not> contains ?h ''|||''" "?h = [] \<or> last ?h \<noteq> CHR ''|''"
    by code_simp+
  have 2: "\<not> contains ?s ''|||''" "?s = [] \<or> last ?s \<noteq> CHR ''|''" "strip ?s = ?s"
    by code_simp+
  have 3: "\<not> contains ?b ''|||''" "\<forall>l \<in> set (split ?b ''\<newline>''). \<not> known_prefix l"
    by code_simp+
  have 4: "\<forall>f \<in> set ?fs. known_prefix f \<and> \<not> contains f ''|||'' \<and> CHR ''\<newline>'' \<notin> set f"
    by code_simp
  have 5: "\<not> contains (?h @ ''|||'' @ ?s @ ''|||'' @ join ''\<newline>'' (?b # ?fs)) ''|||END_COMMIT''"
    by code_simp
  have 6: "?show (strip ?h) = Completed 0 '' 2 files changed\<newline>''"
    by simp
  have 7: "strip '' 2 files changed\<newline>'' = ''2 files changed''" "strip ?h = ?h" "strip ?b = ?b"
    by code_simp+
  show ?thesis
    using get_commits_round_trip[of ?h ?s ?b ?fs ?show 0 "'' 2 files changed\<newline>''", OF 1 2 3 4 5 6]
    by (simp add: 7)
qed

text \<open>
  The claim asks nothing of the subject. A subject that contains the field delimiter is
  cut there: its tail is taken for the body-and-files text, and the body and the files
  are lost, although the body has no line with a known prefix and no delimiter and the
  file line has a known prefix.
\<close>

theorem get_commits_round_trip_counterexample:
  "\<not> contains ''Body text'' ''|||'' \<and> \<not> known_prefix ''Body text'' \<and> known_prefix ''src/a.rs''
   \<and> get_commits (\<lambda>h. Completed 0 [])
       (Completed 0 ''abc123|||fix: a|||b|||Body text\<newline>src/a.rs|||END_COMMIT'')
     = Inr [\<lparr>hash = ''abc123'', subject = ''fix: a'', body = ''b'',
              files_changed = [], stats = []\<rparr>]"
  by code_simp

text \<open>
  C10. When the body-and-files text of a block contains \<open>|||\<close>, the block is split at
  every occurrence and only the field at index 2, the text \<open>x\<close> before the first
  occurrence, is used: \<open>get_commits\<close> returns one commit whose body and files are those
  of \<open>x\<close> alone, whatever the text \<open>y\<close> behind the delimiter is, the same commit it
  returns for the block cut there. The hash and the subject have no \<open>|||\<close> and do not
  end in \<open>|\<close>, \<open>x\<close> is the text before the first \<open>|||\<close>, the block does not contain
  the sentinel, and the \<open>git show\<close> of the hash completes.
\<close>

theorem get_commits_drops_after_delimiter:
  assumes hash_ok: "\<not> contains h ''|||''" "h = [] \<or> last h \<noteq> CHR ''|''"
    and subject_ok: "\<not> contains s ''|||''" "s = [] \<or> last s \<noteq> CHR ''|''"
    and x_ok: "\<not> contains x ''|||''" "x = [] \<or> last x \<noteq> CHR ''|''"
    and block_ok:
      "\<not> contains (h @ ''|||'' @ s @ ''|||'' @ x @ ''|||'' @ y) ''|||END_COMMIT''"
    and show_ok: "git_show (strip h) = Completed rc out"
  shows "get_commits git_show
             (Completed 0 (h @ ''|||'' @ s @ ''|||'' @ x @ ''|||'' @ y @ ''|||END_COMMIT''))
           = Inr [\<lparr>hash = strip h, subject = strip s, body = fst (split_body_files x),
                    files_changed = snd (split_body_files x), stats = strip out\<rparr>]
         \<and> get_commits git_show
             (Completed 0 (h @ ''|||'' @ s @ ''|||'' @ x @ ''|||END_COMMIT''))
           = Inr [\<lparr>hash = strip h, subject = strip s, body = fst (split_body_files x),
                    files_changed = snd (split_body_files x), stats = strip out\<rparr>]
         \<and> parse_raw (h @ ''|||'' @ s @ ''|||'' @ x @ ''|||'' @ y) =
             Some (strip h, strip s, fst (split_body_files x), snd (split_body_files x))"
proof -
  let ?long = "h @ ''|||'' @ s @ ''|||'' @ x @ ''|||'' @ y"
  let ?short = "h @ ''|||'' @ s @ ''|||'' @ x"
  let ?res = "(strip h, strip s, fst (split_body_files x), snd (split_body_files x))"
  have c: "\<not> sublist ''|||'' (h @ ''||'')" "\<not> sublist ''|||'' (s @ ''||'')"
      "\<not> sublist ''|||'' (x @ ''||'')"
    using hash_ok subject_ok x_ok by (simp_all add: contains_sublist delim_ext)
  have long: "parse_raw ?long = Some ?res"
    using c by (rule parse_raw_cut)
  have short: "parse_raw ?short = Some ?res"
    using c by (rule parse_raw_uncut)
  have nl: "\<not> sublist ''|||END_COMMIT'' ?long"
    using block_ok by (simp add: contains_sublist)
  have "prefix ?short ?long" by simp
  then have "sublist ?short ?long" by (rule prefix_imp_sublist)
  with nl have ns: "\<not> sublist ''|||END_COMMIT'' ?short"
    using sublist_order.order.trans by blast
  have st: "get_diff_stats git_show (strip h) = Inr (strip out)"
    using show_ok by (simp add: get_diff_stats_def)
  have 1: "get_commits git_show (Completed 0 (?long @ ''|||END_COMMIT'')) =
        Inr [\<lparr>hash = strip h, subject = strip s, body = fst (split_body_files x),
                files_changed = snd (split_body_files x), stats = strip out\<rparr>]"
    using get_commits_one[OF nl long, of git_show] st by simp
  have 2: "get_commits git_show (Completed 0 (?short @ ''|||END_COMMIT'')) =
        Inr [\<lparr>hash = strip h, subject = strip s, body = fst (split_body_files x),
                files_changed = snd (split_body_files x), stats = strip out\<rparr>]"
    using get_commits_one[OF ns short, of git_show] st by simp
  from 1 2 long show ?thesis by simp
qed

theorem get_commits_drops_after_delimiter_witness:
  "get_commits (\<lambda>h. Completed 0 '' 1 file changed\<newline>'')
       (Completed 0 ''abc123|||fix: typo|||Body|||more text\<newline>src/a.rs|||END_COMMIT'')
     = Inr [\<lparr>hash = ''abc123'', subject = ''fix: typo'', body = ''Body'',
              files_changed = [], stats = ''1 file changed''\<rparr>]
   \<and> get_commits (\<lambda>h. Completed 0 '' 1 file changed\<newline>'')
       (Completed 0 ''abc123|||fix: typo|||Body|||END_COMMIT'')
     = Inr [\<lparr>hash = ''abc123'', subject = ''fix: typo'', body = ''Body'',
              files_changed = [], stats = ''1 file changed''\<rparr>]
   \<and> parse_raw ''abc123|||fix: typo|||Body|||more text\<newline>src/a.rs''
     = Some (''abc123'', ''fix: typo'', ''Body'', [])"
proof -
  let ?h = "''abc123''" and ?s = "''fix: typo''" and ?x = "''Body''"
  let ?y = "''more text\<newline>src/a.rs''"
  let ?show = "\<lambda>h::string. Completed 0 '' 1 file changed\<newline>''"
  have 1: "\<not> contains ?h ''|||''" "?h = [] \<or> last ?h \<noteq> CHR ''|''"
    by code_simp+
  have 2: "\<not> contains ?s ''|||''" "?s = [] \<or> last ?s \<noteq> CHR ''|''"
    by code_simp+
  have 3: "\<not> contains ?x ''|||''" "?x = [] \<or> last ?x \<noteq> CHR ''|''"
    by code_simp+
  have 4: "\<not> contains (?h @ ''|||'' @ ?s @ ''|||'' @ ?x @ ''|||'' @ ?y) ''|||END_COMMIT''"
    by code_simp
  have 5: "strip ?h = ?h" "strip ?s = ?s" "split_body_files ?x = (''Body'', [])"
      "strip '' 1 file changed\<newline>'' = ''1 file changed''"
    by code_simp+
  have 6: "?show (strip ?h) = Completed 0 '' 1 file changed\<newline>''"
    by simp
  show ?thesis
    using get_commits_drops_after_delimiter[of ?h ?s ?x ?y ?show 0 "'' 1 file changed\<newline>''",
        OF 1 2 3 4 6]
    by (simp add: 5)
qed

section \<open>The diff-stat fetcher\<close>

text \<open>
  C9 (amended). When the \<open>git show\<close> process completes, with whatever return code, the
  fetcher raises nothing and returns the trimmed standard output; that is the empty
  string when the process wrote nothing but whitespace; and the loop of \<open>get_commits\<close>
  goes on with the next block.
\<close>

theorem get_diff_stats_completed:
  assumes "git_show h = Completed rc out"
  shows "get_diff_stats git_show h = Inr (strip out)
     \<and> (strip out = [] \<longrightarrow> get_diff_stats git_show h = Inr [])
     \<and> (parse_raw raw = Some (h, s, b, fs) \<longrightarrow>
          commits_loop git_show cs (raw # raws) =
          commits_loop git_show
            (cs @ [\<lparr>hash = h, subject = s, body = b, files_changed = fs, stats = strip out\<rparr>])
            raws)"
  using assms by (simp add: get_diff_stats_def)

theorem get_diff_stats_completed_witness:
  "get_diff_stats (\<lambda>h. Completed 128 '' \<newline>'') ''abc123'' = Inr []
   \<and> commits_loop (\<lambda>h. Completed 128 '' \<newline>'') [] [''abc123|||wip|||'', ''def456|||tmp|||'']
     = commits_loop (\<lambda>h. Completed 128 '' \<newline>'')
         ([] @ [\<lparr>hash = ''abc123'', subject = ''wip'', body = [], files_changed = [], stats = []\<rparr>])
         [''def456|||tmp|||'']"
proof -
  let ?show = "\<lambda>h::string. Completed 128 '' \<newline>''"
  have 1: "?show ''abc123'' = Completed 128 '' \<newline>''"
    by simp
  have 2: "strip '' \<newline>'' = []"
    by code_simp
  have 3: "parse_raw ''abc123|||wip|||'' = Some (''abc123'', ''wip'', [], [])"
    by code_simp
  show ?thesis
    using get_diff_stats_completed[of ?show "''abc123''" 128 "'' \<newline>''" "''abc123|||wip|||''"
        "''wip''" "[]" "[]" "[]" "[''def456|||tmp|||'']", OF 1] 2 3
    by simp
qed

text \<open>
  A \<open>git show\<close> that exits with status 128 after it has written to its standard output
  gives that output, not the empty string; and an exception of \<open>subprocess.run\<close> itself
  is not caught.
\<close>

theorem get_diff_stats_counterexample:
  "get_diff_stats (\<lambda>h. Completed 128 '' a.rs | 2 +-\<newline>'') ''abc123'' = Inr ''a.rs | 2 +-''
   \<and> get_diff_stats (\<lambda>h. Raised OSError) ''abc123'' = Inl OSError"
  by code_simp

section \<open>The template generator\<close>



section \<open>The regression comparator\<close>

text \<open>
  C6. Whatever the report is: without a baseline file the function prints that there
  is no baseline and returns 0, and with a baseline file that cannot be opened or
  loaded it prints the error and returns 0. The report is not looked at.
\<close>

theorem check_regression_no_baseline:
  "check_regression False baseline_file report_file = Inr ([NoBaselineFound], 0)
   \<and> check_regression True (Inl e) report_file = Inr ([ErrorLoadingBaseline e], 0)"
  by (simp add: check_regression_def)

theorem check_regression_no_baseline_witness:
  "check_regression False (Inl OSError)
      (Inr [''| search | 120.00ms | 130.00ms | 150.00ms | 1.1x |\<newline>''])
     = Inr ([NoBaselineFound], 0)
   \<and> check_regression True (Inl ValueError) (Inl OSError)
     = Inr ([ErrorLoadingBaseline ValueError], 0)"
  using check_regression_no_baseline[of "Inl OSError"
      "Inr [''| search | 120.00ms | 130.00ms | 150.00ms | 1.1x |\<newline>'']" ValueError]
    check_regression_no_baseline[of "Inl OSError" "Inl OSError" ValueError]
  by simp

text \<open>
  C5. The baseline file exists and loads, to whatever value. When no line of the
  report contains \<open>| search |\<close>, the function prints that it could not find the search
  performance and returns 1. When the first line that contains it has a third cell
  which, trimmed and without \<open>ms\<close>, \<open>float\<close> refuses, the function prints the parse
  error and returns 1; so it does when the report cannot be read. None of the
  outcomes with exit code 0 is reached.
\<close>

theorem check_regression_malformed_report:
  "(list_all (\<lambda>l. \<not> contains l ''| search |'') lines \<longrightarrow>
      check_regression True (Inr baseline) (Inr lines) = Inr ([CouldNotFindSearch], 1))
   \<and> (list_all (\<lambda>l. \<not> contains l ''| search |'') pre \<longrightarrow> contains line ''| search |''
        \<longrightarrow> py_float (replace ''ms'' [] (strip (split line ''|'' ! 2))) = Inl e \<longrightarrow>
      check_regression True (Inr baseline) (Inr (pre @ line # post))
        = Inr ([ErrorParsingReport e], 1))
   \<and> check_regression True (Inr baseline) (Inl e') = Inr ([ErrorParsingReport e'], 1)"
  by (simp add: check_regression_def find_search_none find_search_skip find_search_hit
      del: find_search.simps)

theorem check_regression_malformed_report_witness:
  "check_regression True (Inr (JObject [(''search_ms'', JInt 100)]))
      (Inr [''# Benchmarks\<newline>'', ''| update | 5.00ms | 9.00ms |\<newline>''])
     = Inr ([CouldNotFindSearch], 1)
   \<and> check_regression True (Inr (JObject [(''search_ms'', JInt 100)]))
      (Inr [''# Benchmarks\<newline>'', ''| search | n/a | 130.00ms |\<newline>'',
            ''| update | 5.00ms | 9.00ms |\<newline>''])
     = Inr ([ErrorParsingReport ValueError], 1)"
proof -
  let ?b = "JObject [(''search_ms'', JInt 100)]"
  let ?line = "''| search | n/a | 130.00ms |\<newline>''"
  have 1: "list_all (\<lambda>l. \<not> contains l ''| search |'')
      [''# Benchmarks\<newline>'', ''| update | 5.00ms | 9.00ms |\<newline>'']"
    by code_simp
  have 2: "list_all (\<lambda>l. \<not> contains l ''| search |'') [''# Benchmarks\<newline>'']"
    by code_simp
  have 3: "contains ?line ''| search |''"
    by code_simp
  have 4: "py_float (replace ''ms'' [] (strip (split ?line ''|'' ! 2))) = Inl ValueError"
    by code_simp
  have a: "check_regression True (Inr ?b)
      (Inr [''# Benchmarks\<newline>'', ''| update | 5.00ms | 9.00ms |\<newline>''])
     = Inr ([CouldNotFindSearch], 1)"
    by (rule check_regression_malformed_report[THEN conjunct1, rule_format, OF 1])
  have b: "check_regression True (Inr ?b)
      (Inr ([''# Benchmarks\<newline>''] @ ?line # [''| update | 5.00ms | 9.00ms |\<newline>'']))
     = Inr ([ErrorParsingReport ValueError], 1)"
    by (rule check_regression_malformed_report[THEN conjunct2, THEN conjunct1, rule_format,
          OF 2 3 4])
  from a b show ?thesis by simp
qed






end
